theory Spec2Isabelle
  imports Complex_Main "HOL-Library.AList"
begin

section \<open>Data model of main.go\<close>

text \<open>
  The Go structs become records with the source's field names. A \<open>float64\<close> that the
  program stores or copies is modelled as the \<open>real\<close> it denotes. The single arithmetic
  operation of the program, the product in \<open>proposeDCC\<close>, is a \<open>float64\<close> multiplication:
  its result is the product rounded to a \<open>float64\<close>, which in general is not the product of
  the reals. The rounding is not modelled; the result is kept as \<open>Float64Mul x c\<close>, the
  \<open>float64\<close> product of the value \<open>x\<close> and the \<open>float64\<close> constant that the source writes \<open>c\<close>.
\<close>

datatype float64_product = Float64Mul real real

record Order =
  OrderID :: string
  CustomerID :: string
  Amount :: real
  Currency :: string
  CardBrand :: string
  DCCAccepted :: bool
  PaymentAmount :: real
  PaymentCurrency :: string

record WorkflowStep =
  StepID :: string
  Service :: string
  Status :: string

text \<open>
  \<open>Criteria\<close> is a Go \<open>map[string]string\<close>. It is only ever indexed, so an association
  list read through \<open>go_index\<close> (a missing key gives the zero value, the empty string) is
  an exact model.
\<close>

record Workflow =
  WorkflowID :: string
  Criteria :: "(string \<times> string) list"
  Steps :: "WorkflowStep list"

record WorkflowInstance =
  Workflow :: Workflow
  StepIndex :: nat

text \<open>The anonymous struct decoded by \<open>acceptDCCHandler\<close>.\<close>

record DCCResponse =
  RespOrderID :: string
  Accepted :: bool
  NewAmount :: real
  NewCurrency :: string

text \<open>Every \<open>log.Printf\<close> of the program is an event carrying the values it prints.\<close>

datatype event =
    LogOrderCreated Order
  | LogNoWorkflow string
  | LogExecStep string string string
  | LogDCCOffer string real string float64_product
  | LogPayment string real string
  | LogWorkflowDone string
  | LogDCCAccepted string real string
  | LogDCCRejected string real string
  | LogResume string
  | LogNoInstance string

text \<open>
  What a handler writes to its \<open>http.ResponseWriter\<close>: nothing, the message it gives to
  \<open>http.Error\<close>, or the JSON encoding of an order. A handler that never calls
  \<open>WriteHeader\<close> answers with status 200.
\<close>

datatype body = BodyEmpty | BodyError string | BodyOrder Order

record response =
  status :: nat
  body :: body

text \<open>
  The package-level variables form the state. \<open>ordersDB\<close> and \<open>workflowInstances\<close> are Go
  maps, modelled as association lists that are written with \<open>AList.update\<close> and
  \<open>AList.delete\<close> only (so their keys stay distinct and \<open>length\<close> is Go's \<open>len\<close>).
  \<open>workflowInstances\<close> holds pointers: a pointer is an address in \<open>heap\<close>, and \<open>brk\<close> is
  the next address that \<open>&WorkflowInstance{...}\<close> allocates (Go pointers never dangle, so
  \<open>heap\<close> is total; the addresses from \<open>brk\<close> on are not in use yet). The \<open>Workflow\<close> of an
  instance is held by value: the program never writes to a workflow. \<open>logs\<close> is the output
  of the logger. The mutex \<open>orderMutex\<close> has no counterpart: requests are served one at a
  time.
\<close>

record state =
  workflowsDB :: "Workflow list"
  ordersDB :: "(string \<times> Order) list"
  workflowInstances :: "(string \<times> nat) list"
  heap :: "nat \<Rightarrow> WorkflowInstance"
  brk :: nat
  logs :: "event list"

definition go_index :: "(string \<times> string) list \<Rightarrow> string \<Rightarrow> string" where
  "go_index m k = (case map_of m k of None \<Rightarrow> [] | Some v \<Rightarrow> v)"

definition workflowsDB_init :: "Workflow list" where
  "workflowsDB_init =
    [\<lparr>WorkflowID = ''wf-payment-dcc-proposal'',
      Criteria = [(''payment_type'', ''credit_card''), (''currency'', ''USD'')],
      Steps = [\<lparr>StepID = ''dcc_proposal'', Service = ''PBC_DCC'', Status = ''pending''\<rparr>,
               \<lparr>StepID = ''payment_processing'', Service = ''PBC_Payment'', Status = ''pending''\<rparr>]\<rparr>,
     \<lparr>WorkflowID = ''wf-payment-generic'',
      Criteria = [(''payment_type'', ''credit_card''), (''currency'', ''BRL'')],
      Steps = [\<lparr>StepID = ''payment_processing'', Service = ''PBC_Payment'', Status = ''pending''\<rparr>]\<rparr>]"

definition zero_Order :: Order where
  "zero_Order = \<lparr>OrderID = [], CustomerID = [], Amount = 0, Currency = [], CardBrand = [],
                 DCCAccepted = False, PaymentAmount = 0, PaymentCurrency = []\<rparr>"

definition zero_Workflow :: Workflow where
  "zero_Workflow = \<lparr>WorkflowID = [], Criteria = [], Steps = []\<rparr>"

text \<open>The state when \<open>main\<close> starts serving: both maps empty, nothing allocated.\<close>

definition init_state :: state where
  "init_state = \<lparr>workflowsDB = workflowsDB_init, ordersDB = [], workflowInstances = [],
                 heap = (\<lambda>_. \<lparr>Workflow = zero_Workflow, StepIndex = 0\<rparr>), brk = 0, logs = []\<rparr>"

section \<open>Operations\<close>

text \<open>
  \<open>fmt.Sprintf("%d", n)\<close> for a non-negative \<open>n\<close>; \<open>digit_char\<close> is only applied to
  numbers below ten.
\<close>

definition digit_char :: "nat \<Rightarrow> char" where
  "digit_char d = ''0123456789'' ! d"

fun decimal :: "nat \<Rightarrow> string" where
  "decimal n = (if n < 10 then [digit_char n] else decimal (n div 10) @ [digit_char (n mod 10)])"

declare decimal.simps [simp del]

text \<open>\<open>findWorkflow\<close>: the range loop over \<open>workflowsDB\<close>; \<open>None\<close> is the nil pointer.\<close>

fun findWorkflow_loop :: "Workflow list \<Rightarrow> Order \<Rightarrow> Workflow option" where
  "findWorkflow_loop [] order = None"
| "findWorkflow_loop (wflow # wfs) order =
     (if go_index (Criteria wflow) ''payment_type'' = ''credit_card''
         \<and> go_index (Criteria wflow) ''currency'' = Currency order
      then Some wflow else findWorkflow_loop wfs order)"

definition findWorkflow :: "state \<Rightarrow> Order \<Rightarrow> Workflow option" where
  "findWorkflow s order = findWorkflow_loop (workflowsDB s) order"

definition proposeDCC :: "Order \<Rightarrow> state \<Rightarrow> state" where
  "proposeDCC order s =
     (let convertedAmount = Float64Mul (PaymentAmount order) 0.85
      in s\<lparr>logs := logs s @ [LogDCCOffer (OrderID order) (PaymentAmount order)
                                 (PaymentCurrency order) convertedAmount]\<rparr>)"

definition processPayment :: "Order \<Rightarrow> state \<Rightarrow> state" where
  "processPayment order s =
     s\<lparr>logs := logs s @ [LogPayment (OrderID order) (PaymentAmount order) (PaymentCurrency order)]\<rparr>"

text \<open>
  \<open>executeWorkflowSteps\<close>: \<open>instance\<close> is a pointer, so the loop reads the instance in the
  heap at every test of its condition and writes \<open>StepIndex\<close> through it; the \<open>delete\<close>
  after the loop goes by the key \<open>order.OrderID\<close>.
\<close>

function executeWorkflowSteps_loop :: "Order \<Rightarrow> nat \<Rightarrow> nat \<Rightarrow> state \<Rightarrow> state" where
  "executeWorkflowSteps_loop order instance i s =
     (if i < length (Steps (Workflow (heap s instance))) then
        (let step = Steps (Workflow (heap s instance)) ! i;
             s1 = s\<lparr>logs := logs s @ [LogExecStep (StepID step) (Service step) (OrderID order)]\<rparr>
         in if StepID step = ''dcc_proposal'' then
              (let s2 = proposeDCC order s1
               in s2\<lparr>heap := (heap s2)(instance := (heap s2 instance)\<lparr>StepIndex := i + 1\<rparr>)\<rparr>)
            else
              executeWorkflowSteps_loop order instance (i + 1)
                (if Service step = ''PBC_Payment'' then processPayment order s1 else s1))
      else
        s\<lparr>logs := logs s @ [LogWorkflowDone (OrderID order)],
          workflowInstances := AList.delete (OrderID order) (workflowInstances s)\<rparr>)"
  by pat_completeness auto
termination
  by (relation "measure (\<lambda>(order, instance, i, s). length (Steps (Workflow (heap s instance))) - i)")
     (auto simp: processPayment_def)

declare executeWorkflowSteps_loop.simps [simp del]

definition executeWorkflowSteps :: "Order \<Rightarrow> nat \<Rightarrow> state \<Rightarrow> state" where
  "executeWorkflowSteps order instance s =
     executeWorkflowSteps_loop order instance (StepIndex (heap s instance)) s"

text \<open>
  \<open>createOrder\<close>. The argument is the result of decoding the request body into a zero
  \<open>Order\<close> (\<open>None\<close>: the decoder failed). The result is the response, the goroutine the
  handler starts with \<open>go\<close> (the arguments of \<open>executeWorkflowSteps\<close>, evaluated when the
  statement runs: \<open>workflowInstances[order.OrderID]\<close> is the pointer stored under that key
  by the statement before), and the new state.
\<close>

definition createOrder :: "Order option \<Rightarrow> state \<Rightarrow> response \<times> (Order \<times> nat) option \<times> state" where
  "createOrder req s =
     (case req of
        None \<Rightarrow> (\<lparr>status = 400, body = BodyError ''Invalid request''\<rparr>, None, s)
      | Some decoded \<Rightarrow>
          (let order = decoded\<lparr>OrderID := ''order-'' @ decimal (length (ordersDB s) + 1),
                               PaymentAmount := Amount decoded,
                               PaymentCurrency := Currency decoded\<rparr>;
               s1 = s\<lparr>ordersDB := AList.update (OrderID order) order (ordersDB s)\<rparr>;
               s2 = s1\<lparr>logs := logs s1 @ [LogOrderCreated order]\<rparr>
           in case findWorkflow s2 order of
                None \<Rightarrow>
                  (\<lparr>status = 200, body = BodyEmpty\<rparr>, None,
                   s2\<lparr>logs := logs s2 @ [LogNoWorkflow (OrderID order)]\<rparr>)
              | Some workflow \<Rightarrow>
                  (let p = brk s2;
                       s3 = s2\<lparr>heap := (heap s2)(p := \<lparr>Workflow = workflow, StepIndex = 0\<rparr>),
                               brk := p + 1\<rparr>;
                       s4 = s3\<lparr>workflowInstances :=
                                 AList.update (OrderID order) p (workflowInstances s3)\<rparr>
                   in (\<lparr>status = 201, body = BodyOrder order\<rparr>, Some (order, p), s4))))"

text \<open>\<open>acceptDCCHandler\<close>, with the same conventions.\<close>

definition acceptDCCHandler ::
  "DCCResponse option \<Rightarrow> state \<Rightarrow> response \<times> (Order \<times> nat) option \<times> state" where
  "acceptDCCHandler req s =
     (case req of
        None \<Rightarrow> (\<lparr>status = 400, body = BodyError ''Invalid request''\<rparr>, None, s)
      | Some resp \<Rightarrow>
          (let (order, s1) =
                 (case map_of (ordersDB s) (RespOrderID resp) of
                    None \<Rightarrow> (zero_Order, s)
                  | Some stored \<Rightarrow>
                      (if Accepted resp then
                         (let order = stored\<lparr>PaymentAmount := NewAmount resp,
                                              PaymentCurrency := NewCurrency resp,
                                              DCCAccepted := True\<rparr>
                          in (order,
                              s\<lparr>logs := logs s @ [LogDCCAccepted (RespOrderID resp)
                                                     (NewAmount resp) (NewCurrency resp)],
                                ordersDB := AList.update (RespOrderID resp) order (ordersDB s)\<rparr>))
                       else
                         (let order = stored\<lparr>DCCAccepted := False\<rparr>
                          in (order,
                              s\<lparr>logs := logs s @ [LogDCCRejected (RespOrderID resp)
                                                     (PaymentAmount stored) (PaymentCurrency stored)],
                                ordersDB := AList.update (RespOrderID resp) order (ordersDB s)\<rparr>))))
           in case map_of (workflowInstances s1) (RespOrderID resp) of
                Some instance \<Rightarrow>
                  (\<lparr>status = 200, body = BodyEmpty\<rparr>, Some (order, instance),
                   s1\<lparr>logs := logs s1 @ [LogResume (RespOrderID resp)]\<rparr>)
              | None \<Rightarrow>
                  (\<lparr>status = 200, body = BodyEmpty\<rparr>, None,
                   s1\<lparr>logs := logs s1 @ [LogNoInstance (RespOrderID resp)]\<rparr>)))"

text \<open>
  A goroutine started by a handler runs \<open>executeWorkflowSteps\<close>. The theorems below are
  about a request served alone: the burst it starts runs to its end before the next
  request is taken. Interleavings of bursts and requests are not modelled.
\<close>

fun run_burst :: "(Order \<times> nat) option \<Rightarrow> state \<Rightarrow> state" where
  "run_burst None s = s"
| "run_burst (Some (order, instance)) s = executeWorkflowSteps order instance s"

definition serve_createOrder :: "Order option \<Rightarrow> state \<Rightarrow> response \<times> state" where
  "serve_createOrder req s =
     (case createOrder req s of (resp, g, s') \<Rightarrow> (resp, run_burst g s'))"

definition serve_acceptDCC :: "DCCResponse option \<Rightarrow> state \<Rightarrow> response \<times> state" where
  "serve_acceptDCC req s =
     (case acceptDCCHandler req s of (resp, g, s') \<Rightarrow> (resp, run_burst g s'))"

section \<open>Notions used in the statements\<close>

subsection \<open>What a burst runs\<close>

text \<open>
  A pause step is one that \<open>executeWorkflowSteps\<close> recognises as such: its \<open>StepID\<close> is
  \<open>dcc_proposal\<close>. \<open>step_events\<close> is what running a step that is not a pause step logs
  (the settlement executor \<open>processPayment\<close> is invoked exactly when a \<open>LogPayment\<close> is
  logged), \<open>pause_events\<close> what running a pause step logs (the decision-offer executor
  \<open>proposeDCC\<close> is invoked exactly when a \<open>LogDCCOffer\<close> is logged).
\<close>

definition is_pause :: "WorkflowStep \<Rightarrow> bool" where
  "is_pause st \<longleftrightarrow> StepID st = ''dcc_proposal''"

definition step_events :: "Order \<Rightarrow> WorkflowStep \<Rightarrow> event list" where
  "step_events order st =
     LogExecStep (StepID st) (Service st) (OrderID order) #
     (if Service st = ''PBC_Payment''
      then [LogPayment (OrderID order) (PaymentAmount order) (PaymentCurrency order)] else [])"

definition pause_events :: "Order \<Rightarrow> WorkflowStep \<Rightarrow> event list" where
  "pause_events order st =
     [LogExecStep (StepID st) (Service st) (OrderID order),
      LogDCCOffer (OrderID order) (PaymentAmount order) (PaymentCurrency order)
        (Float64Mul (PaymentAmount order) 0.85)]"

text \<open>The steps from index \<open>i\<close> on that come before the first pause step at or after \<open>i\<close>.\<close>

definition ran_before_pause :: "WorkflowStep list \<Rightarrow> nat \<Rightarrow> WorkflowStep list" where
  "ran_before_pause steps i = takeWhile (\<lambda>st. \<not> is_pause st) (drop i steps)"

text \<open>The index of the first pause step (the length of the list when there is none).\<close>

definition first_pause :: "WorkflowStep list \<Rightarrow> nat" where
  "first_pause steps = length (ran_before_pause steps 0)"

text \<open>The lines a burst logs when it starts from a given instance.\<close>

definition burst_events :: "Order \<Rightarrow> WorkflowInstance \<Rightarrow> event list" where
  "burst_events order inst =
     (let steps = Steps (Workflow inst); i = StepIndex inst; pre = ran_before_pause steps i
      in concat (map (step_events order) pre) @
         (if i + length pre < length steps then pause_events order (steps ! (i + length pre))
          else [LogWorkflowDone (OrderID order)]))"

subsection \<open>What the handlers store\<close>

text \<open>
  The identifier built from the number \<open>k\<close>, the identifier that \<open>createOrder\<close> assigns in
  state \<open>s\<close>, and the order it builds from the decoded request.
\<close>

definition order_id :: "nat \<Rightarrow> string" where
  "order_id k = ''order-'' @ decimal k"

definition next_OrderID :: "state \<Rightarrow> string" where
  "next_OrderID s = ''order-'' @ decimal (length (ordersDB s) + 1)"

definition new_order :: "Order \<Rightarrow> state \<Rightarrow> Order" where
  "new_order decoded s =
     decoded\<lparr>OrderID := next_OrderID s, PaymentAmount := Amount decoded,
             PaymentCurrency := Currency decoded\<rparr>"

text \<open>
  The order that \<open>acceptDCCHandler\<close> writes back for a stored order, and the line it logs
  for the decision.
\<close>

definition decided :: "DCCResponse \<Rightarrow> Order \<Rightarrow> Order" where
  "decided resp stored =
     (if Accepted resp
      then stored\<lparr>PaymentAmount := NewAmount resp, PaymentCurrency := NewCurrency resp,
                  DCCAccepted := True\<rparr>
      else stored\<lparr>DCCAccepted := False\<rparr>)"

definition decision_event :: "DCCResponse \<Rightarrow> Order \<Rightarrow> event" where
  "decision_event resp stored =
     (if Accepted resp
      then LogDCCAccepted (RespOrderID resp) (NewAmount resp) (NewCurrency resp)
      else LogDCCRejected (RespOrderID resp) (PaymentAmount stored) (PaymentCurrency stored))"

subsection \<open>Sequences of requests\<close>

text \<open>Requests served one after the other.\<close>

datatype request = CreateOrder "Order option" | SubmitDecision "DCCResponse option"

fun serve :: "state \<Rightarrow> request \<Rightarrow> state" where
  "serve s (CreateOrder req) = snd (serve_createOrder req s)"
| "serve s (SubmitDecision req) = snd (serve_acceptDCC req s)"

definition serve_all :: "request list \<Rightarrow> state \<Rightarrow> state" where
  "serve_all reqs s = foldl serve s reqs"

text \<open>The orders that the log reports as created, oldest first.\<close>

fun created_orders :: "event list \<Rightarrow> Order list" where
  "created_orders [] = []"
| "created_orders (LogOrderCreated order # es) = order # created_orders es"
| "created_orders (e # es) = created_orders es"

text \<open>
  What every state reached from \<open>init_state\<close> satisfies: the keys of \<open>ordersDB\<close> are
  \<open>order-1\<close>, ..., \<open>order-n\<close> in the order of creation, they are the identifiers of the
  orders the log reports as created, and each order is stored under its own identifier.
\<close>

definition store_inv :: "state \<Rightarrow> bool" where
  "store_inv s \<longleftrightarrow>
     map fst (ordersDB s) = map order_id [1 ..< Suc (length (ordersDB s))]
     \<and> map OrderID (created_orders (logs s)) = map fst (ordersDB s)
     \<and> (\<forall>k stored. map_of (ordersDB s) k = Some stored \<longrightarrow> OrderID stored = k)"

subsection \<open>Matching as the specification words it\<close>

text \<open>
  The matching rule in the words of the specification, to be compared with \<open>findWorkflow\<close>:
  a template matches when every entry of its criteria equals the corresponding field of
  the order, and the first matching template in registration order is selected. Criteria
  are named as in the JSON of an order. The \<open>Order\<close> struct has no payment type: every order
  carries a card, and the source compares that criterion with the literal \<open>credit_card\<close>,
  so this is the payment type of every order.
\<close>

definition order_field :: "string \<Rightarrow> Order \<Rightarrow> string option" where
  "order_field k order =
     (if k = ''payment_type'' then Some ''credit_card''
      else if k = ''currency'' then Some (Currency order)
      else if k = ''customer_id'' then Some (CustomerID order)
      else if k = ''card_brand'' then Some (CardBrand order)
      else None)"

definition criteria_all_match :: "(string \<times> string) list \<Rightarrow> Order \<Rightarrow> bool" where
  "criteria_all_match crit order = list_all (\<lambda>(k, v). order_field k order = Some v) crit"

definition Match_spec :: "Workflow list \<Rightarrow> Order \<Rightarrow> Workflow option" where
  "Match_spec db order = find (\<lambda>w. criteria_all_match (Criteria w) order) db"

subsection \<open>Concrete requests and states\<close>

text \<open>
  The decoded body of the script that creates an order, the same order in currencies that
  no template names, and a request that sets the fields the handler overwrites.
\<close>

definition order_usd :: Order where
  "order_usd = \<lparr>OrderID = [], CustomerID = ''cliente456'', Amount = 100, Currency = ''USD'',
                CardBrand = ''VISA'', DCCAccepted = False, PaymentAmount = 0,
                PaymentCurrency = []\<rparr>"

definition order_eur :: Order where
  "order_eur = order_usd\<lparr>Currency := ''EUR''\<rparr>"

definition order_gbp :: Order where
  "order_gbp = order_usd\<lparr>Currency := ''GBP''\<rparr>"

definition order_preset :: Order where
  "order_preset = \<lparr>OrderID = ''mine'', CustomerID = ''cliente456'', Amount = 100,
                   Currency = ''USD'', CardBrand = ''VISA'', DCCAccepted = True,
                   PaymentAmount = 1, PaymentCurrency = ''BRL''\<rparr>"

text \<open>The order stored for \<open>order_usd\<close> when it is the first one, and two decisions on it.\<close>

definition order_1 :: Order where
  "order_1 = \<lparr>OrderID = ''order-1'', CustomerID = ''cliente456'', Amount = 100,
              Currency = ''USD'', CardBrand = ''VISA'', DCCAccepted = False,
              PaymentAmount = 100, PaymentCurrency = ''USD''\<rparr>"

definition decision_reject :: DCCResponse where
  "decision_reject =
     \<lparr>RespOrderID = ''order-1'', Accepted = False, NewAmount = 85, NewCurrency = ''BRL''\<rparr>"

definition decision_accept :: DCCResponse where
  "decision_accept =
     \<lparr>RespOrderID = ''order-1'', Accepted = True, NewAmount = 85, NewCurrency = ''BRL''\<rparr>"

text \<open>
  The state after the first order has been created (its workflow waits for the decision),
  and the state after the decision has been rejected (its workflow has completed).
\<close>

definition state_suspended :: state where
  "state_suspended = serve_all [CreateOrder (Some order_usd)] init_state"

definition state_completed :: state where
  "state_completed =
     serve_all [CreateOrder (Some order_usd), SubmitDecision (Some decision_reject)] init_state"

definition requests_demo :: "request list" where
  "requests_demo =
     [CreateOrder (Some order_usd), CreateOrder (Some order_eur),
      SubmitDecision (Some decision_accept), CreateOrder None, CreateOrder (Some order_usd)]"

section \<open>The burst in closed form\<close>

lemma executeWorkflowSteps_loop_closed:
  "executeWorkflowSteps_loop order p i s =
     (let steps = Steps (Workflow (heap s p)); pre = ran_before_pause steps i in
      if i + length pre < length steps then
        s\<lparr>logs := logs s @ concat (map (step_events order) pre)
                    @ pause_events order (steps ! (i + length pre)),
          heap := (heap s)(p := (heap s p)\<lparr>StepIndex := i + length pre + 1\<rparr>)\<rparr>
      else
        s\<lparr>logs := logs s @ concat (map (step_events order) pre) @ [LogWorkflowDone (OrderID order)],
          workflowInstances := AList.delete (OrderID order) (workflowInstances s)\<rparr>)"
proof (induction order p i s rule: executeWorkflowSteps_loop.induct)
  case (1 order p i s)
  let ?steps = "Steps (Workflow (heap s p))"
  show ?case
  proof (cases "i < length ?steps")
    case False
    then show ?thesis
      by (subst executeWorkflowSteps_loop.simps) (simp add: ran_before_pause_def)
  next
    case True
    note lt = this
    have dr: "drop i ?steps = ?steps ! i # drop (Suc i) ?steps"
      using lt by (simp add: Cons_nth_drop_Suc)
    show ?thesis
    proof (cases "is_pause (?steps ! i)")
      case True
      then show ?thesis using lt dr
        by (subst executeWorkflowSteps_loop.simps)
           (simp add: ran_before_pause_def is_pause_def pause_events_def proposeDCC_def Let_def)
    next
      case False
      let ?e = "LogExecStep (StepID (?steps ! i)) (Service (?steps ! i)) (OrderID order)"
      let ?s' = "if Service (?steps ! i) = ''PBC_Payment''
                 then processPayment order (s\<lparr>logs := logs s @ [?e]\<rparr>)
                 else s\<lparr>logs := logs s @ [?e]\<rparr>"
      have IH: "executeWorkflowSteps_loop order p (i + 1) ?s' =
          (let steps = Steps (Workflow (heap ?s' p)); pre = ran_before_pause steps (i + 1) in
           if (i + 1) + length pre < length steps then
             ?s'\<lparr>logs := logs ?s' @ concat (map (step_events order) pre)
                         @ pause_events order (steps ! ((i + 1) + length pre)),
               heap := (heap ?s')(p := (heap ?s' p)\<lparr>StepIndex := (i + 1) + length pre + 1\<rparr>)\<rparr>
           else
             ?s'\<lparr>logs := logs ?s' @ concat (map (step_events order) pre)
                         @ [LogWorkflowDone (OrderID order)],
               workflowInstances := AList.delete (OrderID order) (workflowInstances ?s')\<rparr>)"
        using "1.IH"[OF lt refl refl] False by (simp add: is_pause_def)
      have hp: "heap ?s' = heap s" by (simp add: processPayment_def)
      have rb: "ran_before_pause ?steps i = ?steps ! i # ran_before_pause ?steps (i + 1)"
        using False dr by (simp add: ran_before_pause_def)
      show ?thesis
        using lt False IH
        by (subst executeWorkflowSteps_loop.simps)
           (simp add: Let_def is_pause_def rb hp step_events_def processPayment_def)
    qed
  qed
qed

lemma ran_before_pause_bound: "i + length (ran_before_pause steps i) \<le> max i (length steps)"
proof -
  have "length (ran_before_pause steps i) \<le> length (drop i steps)"
    unfolding ran_before_pause_def by (rule length_takeWhile_le)
  then show ?thesis by simp
qed

lemma ran_before_pause_no_pause: "st \<in> set (ran_before_pause steps i) \<Longrightarrow> \<not> is_pause st"
  unfolding ran_before_pause_def by (auto dest: set_takeWhileD)

lemma ran_before_pause_stops:
  assumes "i + length (ran_before_pause steps i) < length steps"
  shows "is_pause (steps ! (i + length (ran_before_pause steps i)))"
proof -
  let ?P = "\<lambda>st. \<not> is_pause st"
  have "length (takeWhile ?P (drop i steps)) < length (drop i steps)"
    using assms by (simp add: ran_before_pause_def)
  then have "\<not> ?P (drop i steps ! length (takeWhile ?P (drop i steps)))"
    by (rule nth_length_takeWhile)
  then show ?thesis using assms by (simp add: ran_before_pause_def)
qed

lemma ran_before_pause_all:
  "(i + length (ran_before_pause steps i) < length steps) \<longleftrightarrow>
     (\<exists>st \<in> set (drop i steps). is_pause st)"
proof -
  let ?P = "\<lambda>st. \<not> is_pause st"
  have "length (takeWhile ?P (drop i steps)) = length (drop i steps)
          \<longleftrightarrow> (\<forall>st \<in> set (drop i steps). ?P st)"
    by (metis takeWhile_eq_all_conv length_takeWhile_le takeWhile_eq_take take_all_iff)
  moreover have "length (takeWhile ?P (drop i steps)) \<le> length (drop i steps)"
    by (rule length_takeWhile_le)
  ultimately show ?thesis
    unfolding ran_before_pause_def by (cases "i < length steps") auto
qed

lemma ran_before_pause_0: "ran_before_pause steps 0 = take (first_pause steps) steps"
  unfolding first_pause_def ran_before_pause_def drop_0 by (rule takeWhile_eq_take)

section \<open>Creating an order\<close>

lemma findWorkflow_loop_Currency:
  "Currency o1 = Currency o2 \<Longrightarrow> findWorkflow_loop db o1 = findWorkflow_loop db o2"
  by (induction db) simp_all

lemma findWorkflow_loop_upd:
  "findWorkflow_loop db (d\<lparr>OrderID := a, PaymentAmount := b, PaymentCurrency := c\<rparr>)
     = findWorkflow_loop db d"
  by (rule findWorkflow_loop_Currency) simp

lemma createOrder_matched:
  assumes "findWorkflow s decoded = Some wflow"
  shows "createOrder (Some decoded) s =
    (\<lparr>status = 201, body = BodyOrder (new_order decoded s)\<rparr>,
     Some (new_order decoded s, brk s),
     s\<lparr>ordersDB := AList.update (next_OrderID s) (new_order decoded s) (ordersDB s),
       logs := logs s @ [LogOrderCreated (new_order decoded s)],
       heap := (heap s)(brk s := \<lparr>Workflow = wflow, StepIndex = 0\<rparr>),
       brk := brk s + 1,
       workflowInstances := AList.update (next_OrderID s) (brk s) (workflowInstances s)\<rparr>)"
  using assms unfolding createOrder_def new_order_def next_OrderID_def
  by (simp add: findWorkflow_def findWorkflow_loop_upd Let_def)

lemma createOrder_unmatched:
  assumes "findWorkflow s decoded = None"
  shows "createOrder (Some decoded) s =
    (\<lparr>status = 200, body = BodyEmpty\<rparr>, None,
     s\<lparr>ordersDB := AList.update (next_OrderID s) (new_order decoded s) (ordersDB s),
       logs := logs s @ [LogOrderCreated (new_order decoded s), LogNoWorkflow (next_OrderID s)]\<rparr>)"
  using assms unfolding createOrder_def new_order_def next_OrderID_def
  by (simp add: findWorkflow_def findWorkflow_loop_upd Let_def)

lemma first_pause_props:
  assumes "\<exists>st \<in> set steps. is_pause st"
  shows "first_pause steps < length steps" "is_pause (steps ! first_pause steps)"
    "\<forall>k < first_pause steps. \<not> is_pause (steps ! k)"
proof -
  show lt: "first_pause steps < length steps"
    using assms ran_before_pause_all[of 0 steps] by (simp add: first_pause_def)
  show "is_pause (steps ! first_pause steps)"
    using ran_before_pause_stops[of 0 steps] lt by (simp add: first_pause_def)
  show "\<forall>k < first_pause steps. \<not> is_pause (steps ! k)"
  proof (intro allI impI)
    fix k assume k: "k < first_pause steps"
    then have "steps ! k = ran_before_pause steps 0 ! k"
      by (simp add: ran_before_pause_0)
    moreover have "ran_before_pause steps 0 ! k \<in> set (ran_before_pause steps 0)"
      using k by (simp add: first_pause_def)
    ultimately show "\<not> is_pause (steps ! k)"
      by (simp add: ran_before_pause_no_pause)
  qed
qed

section \<open>Resuming a workflow\<close>

lemma executeWorkflowSteps_closed:
  "executeWorkflowSteps order p s =
     (let steps = Steps (Workflow (heap s p)); i = StepIndex (heap s p);
          pre = ran_before_pause steps i in
      if i + length pre < length steps then
        s\<lparr>logs := logs s @ burst_events order (heap s p),
          heap := (heap s)(p := (heap s p)\<lparr>StepIndex := i + length pre + 1\<rparr>)\<rparr>
      else
        s\<lparr>logs := logs s @ burst_events order (heap s p),
          workflowInstances := AList.delete (OrderID order) (workflowInstances s)\<rparr>)"
  unfolding executeWorkflowSteps_def executeWorkflowSteps_loop_closed burst_events_def Let_def
  by simp

lemma executeWorkflowSteps_logs:
  "logs (executeWorkflowSteps order p s) = logs s @ burst_events order (heap s p)"
  unfolding executeWorkflowSteps_closed Let_def by simp

lemma executeWorkflowSteps_ordersDB:
  "ordersDB (executeWorkflowSteps order p s) = ordersDB s"
  unfolding executeWorkflowSteps_closed Let_def by simp

lemma executeWorkflowSteps_workflowsDB:
  "workflowsDB (executeWorkflowSteps order p s) = workflowsDB s"
  unfolding executeWorkflowSteps_closed Let_def by simp

lemma executeWorkflowSteps_completes:
  assumes "\<forall>st \<in> set (drop (StepIndex (heap s p)) (Steps (Workflow (heap s p)))). \<not> is_pause st"
  shows "workflowInstances (executeWorkflowSteps order p s)
           = AList.delete (OrderID order) (workflowInstances s)"
    and "heap (executeWorkflowSteps order p s) = heap s"
  using assms ran_before_pause_all[of "StepIndex (heap s p)" "Steps (Workflow (heap s p))"]
  unfolding executeWorkflowSteps_closed Let_def by simp_all

lemma ran_before_pause_whole:
  assumes "\<forall>st \<in> set (drop i steps). \<not> is_pause st"
  shows "ran_before_pause steps i = drop i steps"
  using assms unfolding ran_before_pause_def by (simp add: takeWhile_eq_all_conv)

lemma acceptDCCHandler_existing:
  assumes "map_of (ordersDB s) (RespOrderID resp) = Some stored"
  shows "acceptDCCHandler (Some resp) s =
    (\<lparr>status = 200, body = BodyEmpty\<rparr>,
     map_option (Pair (decided resp stored)) (map_of (workflowInstances s) (RespOrderID resp)),
     s\<lparr>ordersDB := AList.update (RespOrderID resp) (decided resp stored) (ordersDB s),
       logs := logs s @ [decision_event resp stored,
                         (case map_of (workflowInstances s) (RespOrderID resp) of
                            Some p \<Rightarrow> LogResume (RespOrderID resp)
                          | None \<Rightarrow> LogNoInstance (RespOrderID resp))]\<rparr>)"
  using assms unfolding acceptDCCHandler_def decided_def decision_event_def
  by (simp add: Let_def split: option.split)

lemma acceptDCCHandler_unknown:
  assumes "map_of (ordersDB s) (RespOrderID resp) = None"
  shows "acceptDCCHandler (Some resp) s =
    (\<lparr>status = 200, body = BodyEmpty\<rparr>,
     map_option (Pair zero_Order) (map_of (workflowInstances s) (RespOrderID resp)),
     s\<lparr>logs := logs s @ [(case map_of (workflowInstances s) (RespOrderID resp) of
                            Some p \<Rightarrow> LogResume (RespOrderID resp)
                          | None \<Rightarrow> LogNoInstance (RespOrderID resp))]\<rparr>)"
  using assms unfolding acceptDCCHandler_def
  by (simp add: Let_def split: option.split)

lemma serve_acceptDCC_suspended:
  assumes "map_of (ordersDB s) (RespOrderID resp) = Some stored"
    and "map_of (workflowInstances s) (RespOrderID resp) = Some p"
  shows "snd (serve_acceptDCC (Some resp) s) =
     executeWorkflowSteps (decided resp stored) p
       (s\<lparr>ordersDB := AList.update (RespOrderID resp) (decided resp stored) (ordersDB s),
          logs := logs s @ [decision_event resp stored, LogResume (RespOrderID resp)]\<rparr>)"
  unfolding serve_acceptDCC_def acceptDCCHandler_existing[OF assms(1)] using assms(2) by simp

lemma run_burst_ordersDB: "ordersDB (run_burst g s) = ordersDB s"
  by (cases g) (auto simp: executeWorkflowSteps_ordersDB)

lemma run_burst_workflowsDB: "workflowsDB (run_burst g s) = workflowsDB s"
  by (cases g) (auto simp: executeWorkflowSteps_workflowsDB)

section \<open>Order identifiers and the store\<close>

lemma digit_char_inj:
  assumes "d < 10" "e < 10" "digit_char d = digit_char e"
  shows "d = e"
proof -
  have dist: "distinct ''0123456789''" by simp
  have len: "length ''0123456789'' = 10" by simp
  from assms show ?thesis
    unfolding digit_char_def using nth_eq_iff_index_eq[OF dist, of d e] len by simp
qed

lemma decimal_nonempty: "decimal n \<noteq> []"
  by (subst decimal.simps) simp

lemma decimal_inj: "decimal m = decimal n \<Longrightarrow> m = n"
proof (induction m arbitrary: n rule: decimal.induct)
  case (1 m)
  show ?case
  proof (cases "m < 10")
    case True
    note m = this
    show ?thesis
    proof (cases "n < 10")
      case True
      with m "1.prems" show ?thesis
        by (subst (asm) decimal.simps, subst (asm) (2) decimal.simps) (simp add: digit_char_inj)
    next
      case False
      have "decimal m = [digit_char m]" using m by (subst decimal.simps) simp
      moreover have "decimal n = decimal (n div 10) @ [digit_char (n mod 10)]"
        using False by (subst decimal.simps) simp
      ultimately show ?thesis using "1.prems" decimal_nonempty[of "n div 10"] by simp
    qed
  next
    case False
    note m = this
    have dm: "decimal m = decimal (m div 10) @ [digit_char (m mod 10)]"
      using m by (subst decimal.simps) simp
    show ?thesis
    proof (cases "n < 10")
      case True
      have "decimal n = [digit_char n]" using True by (subst decimal.simps) simp
      then show ?thesis using "1.prems" dm decimal_nonempty[of "m div 10"] by simp
    next
      case False
      have dn: "decimal n = decimal (n div 10) @ [digit_char (n mod 10)]"
        using False by (subst decimal.simps) simp
      from "1.prems" dm dn have eq: "decimal (m div 10) = decimal (n div 10)"
        and dg: "digit_char (m mod 10) = digit_char (n mod 10)" by simp_all
      have "m div 10 = n div 10" using "1.IH"[OF m eq] .
      moreover have "m mod 10 = n mod 10" using dg by (simp add: digit_char_inj)
      ultimately show ?thesis by (metis div_mult_mod_eq)
    qed
  qed
qed

lemma order_id_inj: "order_id j = order_id k \<Longrightarrow> j = k"
  unfolding order_id_def by (simp add: decimal_inj)

lemma next_OrderID_order_id: "next_OrderID s = order_id (Suc (length (ordersDB s)))"
  by (simp add: next_OrderID_def order_id_def)

lemma created_orders_append:
  "created_orders (es @ fs) = created_orders es @ created_orders fs"
  by (induction es rule: created_orders.induct) simp_all

lemma created_orders_steps: "created_orders (concat (map (step_events order) sts)) = []"
  by (induction sts) (simp_all add: step_events_def created_orders_append)

lemma created_orders_burst: "created_orders (burst_events order inst) = []"
  unfolding burst_events_def Let_def
  by (simp add: created_orders_append created_orders_steps pause_events_def)

lemma run_burst_created:
  "created_orders (logs (run_burst g s)) = created_orders (logs s)"
  by (cases g) (auto simp: executeWorkflowSteps_logs created_orders_append created_orders_burst)

lemma serve_createOrder_None:
  "serve_createOrder None s = (\<lparr>status = 400, body = BodyError ''Invalid request''\<rparr>, s)"
  by (simp add: serve_createOrder_def createOrder_def)

lemma serve_createOrder_ordersDB:
  "ordersDB (snd (serve_createOrder (Some d) s))
     = AList.update (next_OrderID s) (new_order d s) (ordersDB s)"
proof (cases "findWorkflow s d")
  case None
  then show ?thesis by (simp add: serve_createOrder_def createOrder_unmatched)
next
  case (Some w)
  then show ?thesis
    by (simp add: serve_createOrder_def createOrder_matched executeWorkflowSteps_ordersDB)
qed

lemma serve_createOrder_created:
  "created_orders (logs (snd (serve_createOrder (Some d) s)))
     = created_orders (logs s) @ [new_order d s]"
proof (cases "findWorkflow s d")
  case None
  then show ?thesis
    by (simp add: serve_createOrder_def createOrder_unmatched created_orders_append)
next
  case (Some w)
  then show ?thesis
    by (simp add: serve_createOrder_def createOrder_matched executeWorkflowSteps_logs
        created_orders_append created_orders_burst)
qed

lemma serve_acceptDCC_ordersDB:
  "ordersDB (snd (serve_acceptDCC req s)) =
     (case req of None \<Rightarrow> ordersDB s
      | Some resp \<Rightarrow>
          (case map_of (ordersDB s) (RespOrderID resp) of
             None \<Rightarrow> ordersDB s
           | Some stored \<Rightarrow> AList.update (RespOrderID resp) (decided resp stored) (ordersDB s)))"
proof (cases req)
  case None
  then show ?thesis by (simp add: serve_acceptDCC_def acceptDCCHandler_def)
next
  case (Some resp)
  show ?thesis
  proof (cases "map_of (ordersDB s) (RespOrderID resp)")
    case None
    then show ?thesis
      unfolding Some serve_acceptDCC_def acceptDCCHandler_unknown[OF None]
      by (simp add: run_burst_ordersDB)
  next
    case (Some stored)
    then show ?thesis
      unfolding \<open>req = Some resp\<close> serve_acceptDCC_def acceptDCCHandler_existing[OF Some]
      by (simp add: run_burst_ordersDB)
  qed
qed

lemma serve_acceptDCC_created:
  "created_orders (logs (snd (serve_acceptDCC req s))) = created_orders (logs s)"
proof (cases req)
  case None
  then show ?thesis by (simp add: serve_acceptDCC_def acceptDCCHandler_def)
next
  case (Some resp)
  show ?thesis
  proof (cases "map_of (ordersDB s) (RespOrderID resp)")
    case None
    then show ?thesis
      unfolding Some serve_acceptDCC_def acceptDCCHandler_unknown[OF None]
      by (simp add: run_burst_created created_orders_append split: option.split)
  next
    case (Some stored)
    then show ?thesis
      unfolding \<open>req = Some resp\<close> serve_acceptDCC_def acceptDCCHandler_existing[OF Some]
      by (simp add: run_burst_created created_orders_append decision_event_def split: option.split)
  qed
qed

lemma store_inv_init: "store_inv init_state"
  by (simp add: store_inv_def init_state_def)

lemma store_inv_fresh:
  assumes "store_inv s"
  shows "next_OrderID s \<notin> set (map fst (ordersDB s))"
proof
  assume "next_OrderID s \<in> set (map fst (ordersDB s))"
  moreover have "map fst (ordersDB s) = map order_id [1 ..< Suc (length (ordersDB s))]"
    using assms unfolding store_inv_def by blast
  ultimately have "order_id (Suc (length (ordersDB s)))
                     \<in> set (map order_id [1 ..< Suc (length (ordersDB s))])"
    by (simp only: next_OrderID_order_id)
  then have "order_id (Suc (length (ordersDB s))) \<in> order_id ` {1 ..< Suc (length (ordersDB s))}"
    by (simp only: set_map set_upt)
  then obtain k where "k < Suc (length (ordersDB s))"
    and "order_id (Suc (length (ordersDB s))) = order_id k" by auto
  then show False using order_id_inj by fastforce
qed

lemma store_inv_create:
  assumes "store_inv s"
  shows "store_inv (snd (serve_createOrder req s))"
proof (cases req)
  case None
  then show ?thesis using assms by (simp add: serve_createOrder_None)
next
  case (Some d)
  let ?s' = "snd (serve_createOrder (Some d) s)"
  note fresh = store_inv_fresh[OF assms]
  have keys: "map fst (ordersDB ?s') = map fst (ordersDB s) @ [next_OrderID s]"
    using fresh by (simp add: serve_createOrder_ordersDB update_keys)
  then have len: "length (ordersDB ?s') = Suc (length (ordersDB s))"
    by (metis length_map length_append_singleton)
  have 1: "map fst (ordersDB ?s') = map order_id [1 ..< Suc (length (ordersDB ?s'))]"
    using assms unfolding keys len by (simp add: store_inv_def next_OrderID_order_id)
  have 2: "map OrderID (created_orders (logs ?s')) = map fst (ordersDB ?s')"
    using assms unfolding keys serve_createOrder_created
    by (simp add: store_inv_def new_order_def)
  have 3: "\<forall>k stored. map_of (ordersDB ?s') k = Some stored \<longrightarrow> OrderID stored = k"
    using assms unfolding serve_createOrder_ordersDB
    by (auto simp: store_inv_def update_conv' new_order_def)
  show ?thesis unfolding Some store_inv_def using 1 2 3 by blast
qed

lemma store_inv_decide:
  assumes "store_inv s"
  shows "store_inv (snd (serve_acceptDCC req s))"
proof -
  let ?s' = "snd (serve_acceptDCC req s)"
  have od: "ordersDB ?s' = ordersDB s \<or>
       (\<exists>resp stored. map_of (ordersDB s) (RespOrderID resp) = Some stored
          \<and> ordersDB ?s' = AList.update (RespOrderID resp) (decided resp stored) (ordersDB s))"
    unfolding serve_acceptDCC_ordersDB by (auto split: option.split)
  then show ?thesis
  proof
    assume "ordersDB ?s' = ordersDB s"
    then show ?thesis using assms by (simp add: store_inv_def serve_acceptDCC_created)
  next
    assume "\<exists>resp stored. map_of (ordersDB s) (RespOrderID resp) = Some stored
          \<and> ordersDB ?s' = AList.update (RespOrderID resp) (decided resp stored) (ordersDB s)"
    then obtain resp stored where st: "map_of (ordersDB s) (RespOrderID resp) = Some stored"
      and eq: "ordersDB ?s' = AList.update (RespOrderID resp) (decided resp stored) (ordersDB s)"
      by blast
    have dom: "RespOrderID resp \<in> set (map fst (ordersDB s))"
      using st by (metis map_of_eq_None_iff option.distinct(1) set_map)
    have keys: "map fst (ordersDB ?s') = map fst (ordersDB s)"
      unfolding eq using dom by (simp add: update_keys)
    then have len: "length (ordersDB ?s') = length (ordersDB s)"
      by (metis length_map)
    have id: "OrderID (decided resp stored) = RespOrderID resp"
      using assms st by (simp add: store_inv_def decided_def)
    have 3: "\<forall>k stored. map_of (ordersDB ?s') k = Some stored \<longrightarrow> OrderID stored = k"
      using assms id unfolding eq by (auto simp: store_inv_def update_conv')
    show ?thesis
      unfolding store_inv_def keys len serve_acceptDCC_created
      using assms 3 by (simp add: store_inv_def)
  qed
qed

lemma store_inv_serve: "store_inv s \<Longrightarrow> store_inv (serve s r)"
  by (cases r) (simp_all add: store_inv_create store_inv_decide)

lemma store_inv_serve_all: "store_inv s \<Longrightarrow> store_inv (serve_all reqs s)"
  unfolding serve_all_def by (induction reqs arbitrary: s) (simp_all add: store_inv_serve)

lemma distinct_order_ids: "distinct (map order_id [1 ..< n])"
  by (simp add: distinct_map inj_on_def order_id_inj)

section \<open>Matching and the catalog\<close>

lemma findWorkflow_new_order: "findWorkflow s (new_order d s) = findWorkflow s d"
  by (simp add: findWorkflow_def new_order_def findWorkflow_loop_upd)

lemma findWorkflow_loop_find:
  "findWorkflow_loop db order =
     find (\<lambda>w. go_index (Criteria w) ''payment_type'' = ''credit_card''
                \<and> go_index (Criteria w) ''currency'' = Currency order) db"
  by (induction db) simp_all

lemma criteria_all_match_init:
  assumes "w \<in> set workflowsDB_init"
  shows "criteria_all_match (Criteria w) order \<longleftrightarrow>
           go_index (Criteria w) ''payment_type'' = ''credit_card''
           \<and> go_index (Criteria w) ''currency'' = Currency order"
  using assms
  by (auto simp: workflowsDB_init_def criteria_all_match_def order_field_def go_index_def)

lemma findWorkflow_loop_init:
  "findWorkflow_loop workflowsDB_init order = Match_spec workflowsDB_init order"
  unfolding findWorkflow_loop_find Match_spec_def
  by (rule find_cong) (simp_all add: criteria_all_match_init)

lemma serve_createOrder_workflowsDB:
  "workflowsDB (snd (serve_createOrder req s)) = workflowsDB s"
proof (cases req)
  case None
  then show ?thesis by (simp add: serve_createOrder_None)
next
  case (Some d)
  show ?thesis
  proof (cases "findWorkflow s d")
    case None
    then show ?thesis unfolding Some by (simp add: serve_createOrder_def createOrder_unmatched)
  next
    case (Some w)
    then show ?thesis unfolding \<open>req = Some d\<close>
      by (simp add: serve_createOrder_def createOrder_matched executeWorkflowSteps_workflowsDB)
  qed
qed

lemma serve_acceptDCC_workflowsDB:
  "workflowsDB (snd (serve_acceptDCC req s)) = workflowsDB s"
proof (cases req)
  case None
  then show ?thesis by (simp add: serve_acceptDCC_def acceptDCCHandler_def)
next
  case (Some resp)
  show ?thesis
  proof (cases "map_of (ordersDB s) (RespOrderID resp)")
    case None
    then show ?thesis
      unfolding Some serve_acceptDCC_def acceptDCCHandler_unknown[OF None]
      by (simp add: run_burst_workflowsDB)
  next
    case (Some stored)
    then show ?thesis
      unfolding \<open>req = Some resp\<close> serve_acceptDCC_def acceptDCCHandler_existing[OF Some]
      by (simp add: run_burst_workflowsDB)
  qed
qed

lemma serve_workflowsDB: "workflowsDB (serve s r) = workflowsDB s"
  by (cases r) (simp_all add: serve_createOrder_workflowsDB serve_acceptDCC_workflowsDB)

lemma serve_all_workflowsDB: "workflowsDB (serve_all reqs s) = workflowsDB s"
  unfolding serve_all_def by (induction reqs arbitrary: s) (simp_all add: serve_workflowsDB)

section \<open>Concrete runs\<close>

lemma decimal_1: "decimal (Suc 0) = ''1''"
  by (simp add: decimal.simps digit_char_def)

lemma init_state_fields:
  "ordersDB init_state = []" "brk init_state = 0" "workflowInstances init_state = []"
  "logs init_state = []" "workflowsDB init_state = workflowsDB_init"
  by (simp_all add: init_state_def)

lemma next_OrderID_init: "next_OrderID init_state = ''order-1''"
  by (simp add: next_OrderID_def init_state_fields decimal_1)

lemma findWorkflow_init_usd: "findWorkflow init_state order_usd = Some (workflowsDB_init ! 0)"
  by (simp add: findWorkflow_def init_state_def workflowsDB_init_def go_index_def order_usd_def)

lemmas eval_defs = serve_all_def serve_createOrder_def createOrder_def findWorkflow_def
  init_state_def workflowsDB_init_def go_index_def order_usd_def executeWorkflowSteps_def
  executeWorkflowSteps_loop.simps proposeDCC_def processPayment_def decimal.simps digit_char_def
  serve_acceptDCC_def acceptDCCHandler_def decision_reject_def decision_accept_def order_1_def
  Let_def

lemma state_suspended_eval:
  "ordersDB state_suspended = [(''order-1'', order_1)]"
  "workflowInstances state_suspended = [(''order-1'', 0)]"
  "heap state_suspended 0 = \<lparr>Workflow = workflowsDB_init ! 0, StepIndex = 1\<rparr>"
  "logs state_suspended =
     [LogOrderCreated order_1, LogExecStep ''dcc_proposal'' ''PBC_DCC'' ''order-1'',
      LogDCCOffer ''order-1'' 100 ''USD'' (Float64Mul 100 0.85)]"
  unfolding state_suspended_def by (simp_all add: eval_defs)

lemma state_completed_eval:
  "ordersDB state_completed = [(''order-1'', order_1)]"
  "workflowInstances state_completed = []"
  "logs state_completed =
     [LogOrderCreated order_1, LogExecStep ''dcc_proposal'' ''PBC_DCC'' ''order-1'',
      LogDCCOffer ''order-1'' 100 ''USD'' (Float64Mul 100 0.85),
      LogDCCRejected ''order-1'' 100 ''USD'', LogResume ''order-1'',
      LogExecStep ''payment_processing'' ''PBC_Payment'' ''order-1'',
      LogPayment ''order-1'' 100 ''USD'', LogWorkflowDone ''order-1'']"
  unfolding state_completed_def by (simp_all add: eval_defs)

lemma state_suspended_lookup:
  "map_of (ordersDB state_suspended) ''order-1'' = Some order_1"
  "OrderID order_1 = ''order-1''"
  "map_of (workflowInstances state_suspended) ''order-1'' = Some 0"
  by (simp_all add: state_suspended_eval order_1_def)

lemma state_suspended_rest:
  "\<forall>st \<in> set (drop (StepIndex (heap state_suspended 0))
                    (Steps (Workflow (heap state_suspended 0)))). \<not> is_pause st"
  by (simp add: state_suspended_eval workflowsDB_init_def is_pause_def)

lemma state_completed_lookup:
  "map_of (ordersDB state_completed) (RespOrderID decision_accept) = Some order_1"
  "map_of (workflowInstances state_completed) (RespOrderID decision_accept) = None"
  by (simp_all add: state_completed_eval decision_accept_def)

lemma findWorkflow_init_gbp: "findWorkflow init_state (new_order order_gbp init_state) = None"
  by (simp add: findWorkflow_new_order)
     (simp add: findWorkflow_def init_state_def workflowsDB_init_def go_index_def order_gbp_def
        order_usd_def)

lemma requests_demo_created:
  "length (created_orders (logs (serve_all requests_demo init_state))) = 3"
  by (simp add: serve_all_def requests_demo_def serve_createOrder_created
      serve_acceptDCC_created serve_createOrder_None init_state_fields)

lemma decimal_small: "decimal 2 = ''2''" "decimal 3 = ''3''"
  by (simp_all add: decimal.simps digit_char_def)

section \<open>The claims\<close>

text \<open>
  C1. When the template matched for a new order contains a pause step, the burst that
  \<open>createOrder\<close> starts stops at the first pause step, whatever its index \<open>j\<close>: it runs the
  steps before it, logs the step and the offer of \<open>proposeDCC\<close>, and leaves the instance in
  the registry under the order's identifier with \<open>StepIndex = j + 1\<close>. The log shows that no
  step after index \<open>j\<close> has run, and the instance has not been removed. The offer logged is
  the \<open>float64\<close> product of the payment amount and 0.85.
\<close>

theorem C1_initial_burst_suspends_at_first_pause:
  assumes "findWorkflow s decoded = Some wflow"
    and "\<exists>st \<in> set (Steps wflow). is_pause st"
  shows "(let s' = snd (serve_createOrder (Some decoded) s);
              order = new_order decoded s;
              j = first_pause (Steps wflow)
          in j < length (Steps wflow) \<and> is_pause (Steps wflow ! j)
             \<and> (\<forall>k < j. \<not> is_pause (Steps wflow ! k))
             \<and> map_of (workflowInstances s') (OrderID order) = Some (brk s)
             \<and> heap s' (brk s) = \<lparr>Workflow = wflow, StepIndex = j + 1\<rparr>
             \<and> logs s' = logs s @ [LogOrderCreated order]
                           @ concat (map (step_events order) (take j (Steps wflow)))
                           @ pause_events order (Steps wflow ! j))"
proof -
  let ?j = "first_pause (Steps wflow)"
  let ?order = "new_order decoded s"
  let ?s4 = "s\<lparr>ordersDB := AList.update (next_OrderID s) ?order (ordersDB s),
       logs := logs s @ [LogOrderCreated ?order],
       heap := (heap s)(brk s := \<lparr>Workflow = wflow, StepIndex = 0\<rparr>),
       brk := brk s + 1,
       workflowInstances := AList.update (next_OrderID s) (brk s) (workflowInstances s)\<rparr>"
  note fp = first_pause_props[OF assms(2)]
  have pre: "ran_before_pause (Steps wflow) 0 = take ?j (Steps wflow)"
    by (rule ran_before_pause_0)
  have len: "length (take ?j (Steps wflow)) = ?j"
    using fp(1) by simp
  have hs: "heap ?s4 (brk s) = \<lparr>Workflow = wflow, StepIndex = 0\<rparr>"
    by simp
  have run: "executeWorkflowSteps ?order (brk s) ?s4 =
          ?s4\<lparr>logs := logs ?s4 @ concat (map (step_events ?order) (take ?j (Steps wflow)))
                       @ pause_events ?order (Steps wflow ! ?j),
              heap := (heap ?s4)(brk s := (heap ?s4 (brk s))\<lparr>StepIndex := ?j + 1\<rparr>)\<rparr>"
    unfolding executeWorkflowSteps_def executeWorkflowSteps_loop_closed hs Let_def
    using fp(1) by (simp add: pre len)
  have s': "snd (serve_createOrder (Some decoded) s) = executeWorkflowSteps ?order (brk s) ?s4"
    unfolding serve_createOrder_def createOrder_matched[OF assms(1)] by simp
  have id: "OrderID ?order = next_OrderID s"
    by (simp add: new_order_def)
  show ?thesis
    unfolding Let_def s' run id using fp by (simp add: update_conv')
qed

theorem C1_witness:
  "findWorkflow init_state order_usd = Some (workflowsDB_init ! 0)
   \<and> (\<exists>st \<in> set (Steps (workflowsDB_init ! 0)). is_pause st)
   \<and> map_of (workflowInstances (snd (serve_createOrder (Some order_usd) init_state))) ''order-1''
       = Some 0
   \<and> StepIndex (heap (snd (serve_createOrder (Some order_usd) init_state)) 0) = 1
   \<and> logs (snd (serve_createOrder (Some order_usd) init_state))
       = [LogOrderCreated order_1, LogExecStep ''dcc_proposal'' ''PBC_DCC'' ''order-1'',
          LogDCCOffer ''order-1'' 100 ''USD'' (Float64Mul 100 0.85)]"
proof -
  note h1 = findWorkflow_init_usd
  have h2: "\<exists>st \<in> set (Steps (workflowsDB_init ! 0)). is_pause st"
    by (simp add: workflowsDB_init_def is_pause_def)
  have fp: "first_pause (Steps (workflowsDB_init ! 0)) = 0"
    by (simp add: first_pause_def ran_before_pause_def workflowsDB_init_def is_pause_def)
  have id: "OrderID (new_order order_usd init_state) = ''order-1''"
    by (simp add: new_order_def next_OrderID_def init_state_fields decimal_1)
  note th = C1_initial_burst_suspends_at_first_pause[OF h1 h2,
      unfolded Let_def fp id init_state_fields]
  from th have a: "map_of (workflowInstances (snd (serve_createOrder (Some order_usd) init_state)))
                     ''order-1'' = Some 0"
    by blast
  from th have "heap (snd (serve_createOrder (Some order_usd) init_state)) 0
                  = \<lparr>Workflow = workflowsDB_init ! 0, StepIndex = 0 + 1\<rparr>"
    by blast
  then have b: "StepIndex (heap (snd (serve_createOrder (Some order_usd) init_state)) 0) = 1"
    by simp
  have o1: "new_order order_usd init_state = order_1"
    by (simp add: new_order_def next_OrderID_init order_usd_def order_1_def)
  from th have "logs (snd (serve_createOrder (Some order_usd) init_state))
       = [] @ [LogOrderCreated (new_order order_usd init_state)]
           @ concat (map (step_events (new_order order_usd init_state))
                       (take 0 (Steps (workflowsDB_init ! 0))))
           @ pause_events (new_order order_usd init_state) (Steps (workflowsDB_init ! 0) ! 0)"
    by blast
  then have c: "logs (snd (serve_createOrder (Some order_usd) init_state))
       = [LogOrderCreated order_1, LogExecStep ''dcc_proposal'' ''PBC_DCC'' ''order-1'',
          LogDCCOffer ''order-1'' 100 ''USD'' (Float64Mul 100 0.85)]"
    unfolding o1 by (simp add: pause_events_def workflowsDB_init_def order_1_def)
  show ?thesis
    using h1 h2 a b c by blast
qed

text \<open>
  C2. For an order stored under its identifier (as every order of a state reached from
  the initial one is) with an instance in the registry, an
  accepted decision with amount \<open>a\<close> and currency \<open>c\<close> stores the order with payment amount
  \<open>a\<close>, payment currency \<open>c\<close> and the accepted flag set; the resumed burst runs the steps from
  the cursor on with that order (every payment it logs carries \<open>a\<close> and \<open>c\<close>), and when no
  pause step remains it runs all of them and removes the instance from the registry.
\<close>

theorem C2_accepted_decision_sets_payment_and_resumes:
  assumes "map_of (ordersDB s) oid = Some stored"
    and "OrderID stored = oid"
    and "map_of (workflowInstances s) oid = Some p"
  shows "(let s' = snd (serve_acceptDCC
                     (Some \<lparr>RespOrderID = oid, Accepted = True, NewAmount = a, NewCurrency = c\<rparr>) s);
              order = stored\<lparr>PaymentAmount := a, PaymentCurrency := c, DCCAccepted := True\<rparr>;
              steps = Steps (Workflow (heap s p));
              i = StepIndex (heap s p);
              pre = ran_before_pause steps i
          in map_of (ordersDB s') oid = Some order
             \<and> PaymentAmount order = a \<and> PaymentCurrency order = c \<and> DCCAccepted order
             \<and> logs s' = logs s @ [LogDCCAccepted oid a c, LogResume oid]
                   @ concat (map (step_events order) pre)
                   @ (if i + length pre < length steps
                      then pause_events order (steps ! (i + length pre))
                      else [LogWorkflowDone oid])
             \<and> ((\<forall>st \<in> set (drop i steps). \<not> is_pause st) \<longrightarrow>
                    pre = drop i steps \<and> map_of (workflowInstances s') oid = None))"
proof -
  let ?resp = "\<lparr>RespOrderID = oid, Accepted = True, NewAmount = a, NewCurrency = c\<rparr>"
  let ?order = "stored\<lparr>PaymentAmount := a, PaymentCurrency := c, DCCAccepted := True\<rparr>"
  let ?s1 = "s\<lparr>ordersDB := AList.update oid ?order (ordersDB s),
               logs := logs s @ [LogDCCAccepted oid a c, LogResume oid]\<rparr>"
  have d: "decided ?resp stored = ?order" "decision_event ?resp stored = LogDCCAccepted oid a c"
    by (simp_all add: decided_def decision_event_def)
  have s': "snd (serve_acceptDCC (Some ?resp) s) = executeWorkflowSteps ?order p ?s1"
    using serve_acceptDCC_suspended[of s ?resp stored p] assms by (simp add: d)
  have id: "OrderID ?order = oid" using assms(2) by simp
  have hp: "heap ?s1 = heap s" by simp
  have 1: "map_of (ordersDB (executeWorkflowSteps ?order p ?s1)) oid = Some ?order"
    by (simp add: executeWorkflowSteps_ordersDB update_conv')
  have 2: "logs (executeWorkflowSteps ?order p ?s1) =
       logs s @ [LogDCCAccepted oid a c, LogResume oid]
         @ concat (map (step_events ?order) (ran_before_pause (Steps (Workflow (heap s p))) (StepIndex (heap s p))))
         @ (if StepIndex (heap s p) + length (ran_before_pause (Steps (Workflow (heap s p))) (StepIndex (heap s p)))
                 < length (Steps (Workflow (heap s p)))
            then pause_events ?order (Steps (Workflow (heap s p)) !
                    (StepIndex (heap s p) + length (ran_before_pause (Steps (Workflow (heap s p))) (StepIndex (heap s p)))))
            else [LogWorkflowDone oid])"
    unfolding executeWorkflowSteps_logs hp burst_events_def Let_def id by simp
  have 3: "map_of (workflowInstances (executeWorkflowSteps ?order p ?s1)) oid = None"
    if "\<forall>st \<in> set (drop (StepIndex (heap s p)) (Steps (Workflow (heap s p)))). \<not> is_pause st"
  proof -
    have "workflowInstances (executeWorkflowSteps ?order p ?s1)
            = AList.delete (OrderID ?order) (workflowInstances ?s1)"
      by (rule executeWorkflowSteps_completes(1)) (use that in simp)
    then show ?thesis by (simp add: id delete_conv')
  qed
  show ?thesis
    unfolding Let_def s' using 1 2 3 ran_before_pause_whole by simp
qed

theorem C2_witness:
  "map_of (ordersDB state_suspended) ''order-1'' = Some order_1
   \<and> OrderID order_1 = ''order-1''
   \<and> map_of (workflowInstances state_suspended) ''order-1'' = Some 0
   \<and> map_of (ordersDB (snd (serve_acceptDCC (Some decision_accept) state_suspended))) ''order-1''
       = Some (order_1\<lparr>PaymentAmount := 85, PaymentCurrency := ''BRL'', DCCAccepted := True\<rparr>)
   \<and> map_of (workflowInstances (snd (serve_acceptDCC (Some decision_accept) state_suspended)))
         ''order-1'' = None"
proof -
  note th = C2_accepted_decision_sets_payment_and_resumes[OF state_suspended_lookup,
      of 85 "''BRL''", unfolded Let_def, folded decision_accept_def]
  from th have a: "map_of (ordersDB (snd (serve_acceptDCC (Some decision_accept) state_suspended)))
      ''order-1'' = Some (order_1\<lparr>PaymentAmount := 85, PaymentCurrency := ''BRL'', DCCAccepted := True\<rparr>)"
    by blast
  from th state_suspended_rest
  have b: "map_of (workflowInstances (snd (serve_acceptDCC (Some decision_accept) state_suspended)))
         ''order-1'' = None"
    by blast
  show ?thesis using state_suspended_lookup a b by blast
qed

text \<open>
  C3. For an order stored under its identifier with an instance in the registry, a
  rejected decision, whatever amount and currency it carries, stores the order with its
  payment amount and payment currency as they were and the accepted flag cleared; the
  resumed burst runs the steps from the cursor on with these payment values, and when no
  pause step remains it runs all of them and removes the instance from the registry.
\<close>

theorem C3_rejected_decision_keeps_payment_and_resumes:
  assumes "map_of (ordersDB s) oid = Some stored"
    and "OrderID stored = oid"
    and "map_of (workflowInstances s) oid = Some p"
  shows "(let s' = snd (serve_acceptDCC
                     (Some \<lparr>RespOrderID = oid, Accepted = False, NewAmount = a, NewCurrency = c\<rparr>) s);
              order = stored\<lparr>DCCAccepted := False\<rparr>;
              steps = Steps (Workflow (heap s p));
              i = StepIndex (heap s p);
              pre = ran_before_pause steps i
          in map_of (ordersDB s') oid = Some order
             \<and> PaymentAmount order = PaymentAmount stored
             \<and> PaymentCurrency order = PaymentCurrency stored
             \<and> \<not> DCCAccepted order
             \<and> logs s' = logs s @ [LogDCCRejected oid (PaymentAmount stored) (PaymentCurrency stored),
                                    LogResume oid]
                   @ concat (map (step_events order) pre)
                   @ (if i + length pre < length steps
                      then pause_events order (steps ! (i + length pre))
                      else [LogWorkflowDone oid])
             \<and> ((\<forall>st \<in> set (drop i steps). \<not> is_pause st) \<longrightarrow>
                    pre = drop i steps \<and> map_of (workflowInstances s') oid = None))"
proof -
  let ?resp = "\<lparr>RespOrderID = oid, Accepted = False, NewAmount = a, NewCurrency = c\<rparr>"
  let ?order = "stored\<lparr>DCCAccepted := False\<rparr>"
  let ?ev = "LogDCCRejected oid (PaymentAmount stored) (PaymentCurrency stored)"
  let ?s1 = "s\<lparr>ordersDB := AList.update oid ?order (ordersDB s),
               logs := logs s @ [?ev, LogResume oid]\<rparr>"
  let ?steps = "Steps (Workflow (heap s p))"
  let ?i = "StepIndex (heap s p)"
  have d: "decided ?resp stored = ?order" "decision_event ?resp stored = ?ev"
    by (simp_all add: decided_def decision_event_def)
  have s': "snd (serve_acceptDCC (Some ?resp) s) = executeWorkflowSteps ?order p ?s1"
    using serve_acceptDCC_suspended[of s ?resp stored p] assms by (simp add: d)
  have id: "OrderID ?order = oid" using assms(2) by simp
  have hp: "heap ?s1 = heap s" by simp
  have 1: "map_of (ordersDB (executeWorkflowSteps ?order p ?s1)) oid = Some ?order"
    by (simp add: executeWorkflowSteps_ordersDB update_conv')
  have 2: "logs (executeWorkflowSteps ?order p ?s1) =
       logs s @ [?ev, LogResume oid]
         @ concat (map (step_events ?order) (ran_before_pause ?steps ?i))
         @ (if ?i + length (ran_before_pause ?steps ?i) < length ?steps
            then pause_events ?order (?steps ! (?i + length (ran_before_pause ?steps ?i)))
            else [LogWorkflowDone oid])"
    unfolding executeWorkflowSteps_logs hp burst_events_def Let_def id by simp
  have 3: "map_of (workflowInstances (executeWorkflowSteps ?order p ?s1)) oid = None"
    if "\<forall>st \<in> set (drop ?i ?steps). \<not> is_pause st"
  proof -
    have "workflowInstances (executeWorkflowSteps ?order p ?s1)
            = AList.delete (OrderID ?order) (workflowInstances ?s1)"
      by (rule executeWorkflowSteps_completes(1)) (use that in simp)
    then show ?thesis by (simp add: id delete_conv')
  qed
  show ?thesis
    unfolding Let_def s' using 1 2 3 ran_before_pause_whole by simp
qed

theorem C3_witness:
  "map_of (ordersDB state_suspended) ''order-1'' = Some order_1
   \<and> OrderID order_1 = ''order-1''
   \<and> map_of (workflowInstances state_suspended) ''order-1'' = Some 0
   \<and> map_of (ordersDB (snd (serve_acceptDCC (Some decision_reject) state_suspended))) ''order-1''
       = Some (order_1\<lparr>DCCAccepted := False\<rparr>)
   \<and> PaymentAmount (order_1\<lparr>DCCAccepted := False\<rparr>) = 100
   \<and> PaymentCurrency (order_1\<lparr>DCCAccepted := False\<rparr>) = ''USD''
   \<and> map_of (workflowInstances (snd (serve_acceptDCC (Some decision_reject) state_suspended)))
         ''order-1'' = None"
proof -
  note th = C3_rejected_decision_keeps_payment_and_resumes[OF state_suspended_lookup,
      of 85 "''BRL''", unfolded Let_def, folded decision_reject_def]
  from th have a: "map_of (ordersDB (snd (serve_acceptDCC (Some decision_reject) state_suspended)))
      ''order-1'' = Some (order_1\<lparr>DCCAccepted := False\<rparr>)"
    by blast
  from th state_suspended_rest
  have b: "map_of (workflowInstances (snd (serve_acceptDCC (Some decision_reject) state_suspended)))
         ''order-1'' = None"
    by blast
  have c: "PaymentAmount (order_1\<lparr>DCCAccepted := False\<rparr>) = 100"
    "PaymentCurrency (order_1\<lparr>DCCAccepted := False\<rparr>) = ''USD''"
    by (simp_all add: order_1_def)
  show ?thesis using state_suspended_lookup a b c by blast
qed

text \<open>
  C4. For a stored order whose instance is no longer in the registry, a further decision
  is answered with status 200, starts no burst, runs no step and leaves the registry and
  the heap as they were. The decision is still written to the stored order: when accepted,
  the payment amount and currency become the new values and the accepted flag is set; when
  rejected, the accepted flag is cleared.
\<close>

theorem C4_decision_after_completion_still_recorded:
  assumes "map_of (ordersDB s) (RespOrderID resp) = Some stored"
    and "map_of (workflowInstances s) (RespOrderID resp) = None"
  shows "serve_acceptDCC (Some resp) s =
    (\<lparr>status = 200, body = BodyEmpty\<rparr>,
     s\<lparr>ordersDB := AList.update (RespOrderID resp)
          (if Accepted resp
           then stored\<lparr>PaymentAmount := NewAmount resp, PaymentCurrency := NewCurrency resp,
                       DCCAccepted := True\<rparr>
           else stored\<lparr>DCCAccepted := False\<rparr>) (ordersDB s),
       logs := logs s @
          [if Accepted resp
           then LogDCCAccepted (RespOrderID resp) (NewAmount resp) (NewCurrency resp)
           else LogDCCRejected (RespOrderID resp) (PaymentAmount stored) (PaymentCurrency stored),
           LogNoInstance (RespOrderID resp)]\<rparr>)"
  unfolding serve_acceptDCC_def acceptDCCHandler_existing[OF assms(1)]
  using assms(2) by (simp add: decided_def decision_event_def)

theorem C4_witness:
  "map_of (ordersDB state_completed) (RespOrderID decision_accept) = Some order_1
   \<and> map_of (workflowInstances state_completed) (RespOrderID decision_accept) = None
   \<and> fst (serve_acceptDCC (Some decision_accept) state_completed)
        = \<lparr>status = 200, body = BodyEmpty\<rparr>
   \<and> workflowInstances (snd (serve_acceptDCC (Some decision_accept) state_completed)) = []
   \<and> logs (snd (serve_acceptDCC (Some decision_accept) state_completed))
        = logs state_completed @ [LogDCCAccepted ''order-1'' 85 ''BRL'', LogNoInstance ''order-1'']"
proof -
  note th = C4_decision_after_completion_still_recorded[OF state_completed_lookup]
  have a: "fst (serve_acceptDCC (Some decision_accept) state_completed)
        = \<lparr>status = 200, body = BodyEmpty\<rparr>"
    unfolding th by simp
  have b: "workflowInstances (snd (serve_acceptDCC (Some decision_accept) state_completed)) = []"
    unfolding th by (simp add: state_completed_eval)
  have c: "logs (snd (serve_acceptDCC (Some decision_accept) state_completed))
        = logs state_completed @ [LogDCCAccepted ''order-1'' 85 ''BRL'', LogNoInstance ''order-1'']"
    unfolding th by (simp add: decision_accept_def)
  show ?thesis using state_completed_lookup a b c by blast
qed

text \<open>
  C4, the stored order does change: once the workflow of \<open>order-1\<close> has completed after a
  rejected decision, an accepted decision for it replaces the payment of 100 USD by 85 BRL.
\<close>

theorem C4_counterexample:
  "map_of (ordersDB state_completed) ''order-1'' = Some order_1
   \<and> map_of (workflowInstances state_completed) ''order-1'' = None
   \<and> map_of (ordersDB (snd (serve_acceptDCC (Some decision_accept) state_completed))) ''order-1''
       = Some (order_1\<lparr>PaymentAmount := 85, PaymentCurrency := ''BRL'', DCCAccepted := True\<rparr>)
   \<and> map_of (ordersDB (snd (serve_acceptDCC (Some decision_accept) state_completed))) ''order-1''
       \<noteq> map_of (ordersDB state_completed) ''order-1''"
  by (simp add: serve_acceptDCC_def acceptDCCHandler_def state_completed_eval decision_accept_def
      order_1_def Let_def)

text \<open>
  C5. In every state reached from the initial one and for every order, \<open>findWorkflow\<close>
  returns the first template in registration order all of whose criteria equal the
  corresponding field of the order, and returns nothing exactly when no template has all
  its criteria matched. (The loop tests the criteria \<open>payment_type\<close> and \<open>currency\<close>, which
  are the criteria of the two registered templates.)
\<close>

theorem C5_findWorkflow_first_match:
  "findWorkflow (serve_all reqs init_state) order = Match_spec workflowsDB_init order
   \<and> (findWorkflow (serve_all reqs init_state) order = Some w \<longleftrightarrow>
        (\<exists>i < length workflowsDB_init. workflowsDB_init ! i = w
            \<and> criteria_all_match (Criteria w) order
            \<and> (\<forall>j < i. \<not> criteria_all_match (Criteria (workflowsDB_init ! j)) order)))
   \<and> (findWorkflow (serve_all reqs init_state) order = None \<longleftrightarrow>
        (\<forall>w' \<in> set workflowsDB_init. \<not> criteria_all_match (Criteria w') order))"
proof -
  have eq: "findWorkflow (serve_all reqs init_state) order = Match_spec workflowsDB_init order"
    by (simp add: findWorkflow_def serve_all_workflowsDB init_state_fields findWorkflow_loop_init)
  show ?thesis
    unfolding eq unfolding Match_spec_def find_Some_iff find_None_iff by blast
qed

theorem C5_witness:
  "findWorkflow (serve_all [] init_state) order_usd = Some (workflowsDB_init ! 0)
   \<and> Match_spec workflowsDB_init order_usd = Some (workflowsDB_init ! 0)
   \<and> criteria_all_match (Criteria (workflowsDB_init ! 0)) order_usd"
proof -
  have a: "findWorkflow (serve_all [] init_state) order_usd = Some (workflowsDB_init ! 0)"
    by (simp add: serve_all_def findWorkflow_init_usd)
  note th = C5_findWorkflow_first_match[of "[]" order_usd "workflowsDB_init ! 0"]
  from th a have b: "Match_spec workflowsDB_init order_usd = Some (workflowsDB_init ! 0)"
    by simp
  from th a have c: "criteria_all_match (Criteria (workflowsDB_init ! 0)) order_usd"
    by blast
  show ?thesis using a b c by blast
qed

text \<open>
  C6. \<open>createOrder\<close> stores, under the identifier it assigns, an order whose payment amount
  and payment currency equal its original amount and currency, those of the request; when
  a template matches the order, the response is 201 with that order.
\<close>

theorem C6_stored_payment_equals_original:
  "(let resp = fst (serve_createOrder (Some decoded) s);
        s' = snd (serve_createOrder (Some decoded) s)
    in \<exists>order. map_of (ordersDB s') (next_OrderID s) = Some order
         \<and> Amount order = Amount decoded \<and> Currency order = Currency decoded
         \<and> PaymentAmount order = Amount order \<and> PaymentCurrency order = Currency order
         \<and> (findWorkflow s order \<noteq> None \<longrightarrow> resp = \<lparr>status = 201, body = BodyOrder order\<rparr>))"
proof -
  let ?order = "new_order decoded s"
  have 1: "map_of (ordersDB (snd (serve_createOrder (Some decoded) s))) (next_OrderID s) = Some ?order"
    by (simp add: serve_createOrder_ordersDB update_conv')
  have 2: "Amount ?order = Amount decoded" "Currency ?order = Currency decoded"
    "PaymentAmount ?order = Amount ?order" "PaymentCurrency ?order = Currency ?order"
    by (simp_all add: new_order_def)
  have 3: "fst (serve_createOrder (Some decoded) s) = \<lparr>status = 201, body = BodyOrder ?order\<rparr>"
    if "findWorkflow s ?order \<noteq> None"
  proof -
    from that obtain w where "findWorkflow s decoded = Some w"
      by (auto simp: findWorkflow_new_order)
    then show ?thesis by (simp add: serve_createOrder_def createOrder_matched)
  qed
  show ?thesis unfolding Let_def using 1 2 3 by blast
qed

theorem C6_witness:
  "findWorkflow init_state (new_order order_usd init_state) \<noteq> None
   \<and> map_of (ordersDB (snd (serve_createOrder (Some order_usd) init_state))) ''order-1''
       = Some order_1
   \<and> PaymentAmount order_1 = Amount order_1 \<and> PaymentCurrency order_1 = Currency order_1
   \<and> fst (serve_createOrder (Some order_usd) init_state)
       = \<lparr>status = 201, body = BodyOrder order_1\<rparr>"
proof -
  have o1: "new_order order_usd init_state = order_1"
    by (simp add: new_order_def next_OrderID_init order_usd_def order_1_def)
  have m: "findWorkflow init_state (new_order order_usd init_state) \<noteq> None"
    by (simp add: findWorkflow_new_order findWorkflow_init_usd)
  have st: "map_of (ordersDB (snd (serve_createOrder (Some order_usd) init_state))) ''order-1''
       = Some order_1"
    by (simp add: serve_createOrder_ordersDB update_conv' next_OrderID_init o1)
  note th = C6_stored_payment_equals_original[of order_usd init_state,
      unfolded Let_def next_OrderID_init]
  from th st m o1 have r: "fst (serve_createOrder (Some order_usd) init_state)
       = \<lparr>status = 201, body = BodyOrder order_1\<rparr>"
    by auto
  from th st have p: "PaymentAmount order_1 = Amount order_1"
    "PaymentCurrency order_1 = Currency order_1"
    by auto
  show ?thesis using m st p r by blast
qed

text \<open>
  C6, no order is returned for a request that matches no template: the handler returns
  before it writes the response, so the body is empty.
\<close>

theorem C6_counterexample:
  "body (fst (serve_createOrder (Some order_eur) init_state)) = BodyEmpty"
  by (simp add: serve_createOrder_def createOrder_def findWorkflow_def init_state_def
      workflowsDB_init_def go_index_def order_eur_def order_usd_def Let_def)

text \<open>
  C7. When the new order matches no template, \<open>createOrder\<close> starts no burst, answers with
  status 200 (no error), leaves the registry and the heap unchanged, and the order is in
  the store under its identifier.
\<close>

theorem C7_no_template_no_workflow:
  assumes "findWorkflow s (new_order decoded s) = None"
  shows "(let r = createOrder (Some decoded) s; s' = snd (serve_createOrder (Some decoded) s)
          in fst (snd r) = None
             \<and> fst (serve_createOrder (Some decoded) s) = \<lparr>status = 200, body = BodyEmpty\<rparr>
             \<and> workflowInstances s' = workflowInstances s
             \<and> heap s' = heap s \<and> brk s' = brk s
             \<and> map_of (ordersDB s') (next_OrderID s) = Some (new_order decoded s)
             \<and> logs s' = logs s @ [LogOrderCreated (new_order decoded s),
                                    LogNoWorkflow (next_OrderID s)])"
proof -
  have "findWorkflow s decoded = None"
    using assms by (simp only: findWorkflow_new_order)
  then show ?thesis
    by (simp add: serve_createOrder_def createOrder_unmatched update_conv' Let_def)
qed

theorem C7_witness:
  "findWorkflow init_state (new_order order_gbp init_state) = None
   \<and> fst (snd (createOrder (Some order_gbp) init_state)) = None
   \<and> status (fst (serve_createOrder (Some order_gbp) init_state)) = 200
   \<and> workflowInstances (snd (serve_createOrder (Some order_gbp) init_state)) = []
   \<and> map_of (ordersDB (snd (serve_createOrder (Some order_gbp) init_state))) ''order-1''
       = Some (new_order order_gbp init_state)"
proof -
  note th = C7_no_template_no_workflow[OF findWorkflow_init_gbp,
      unfolded Let_def next_OrderID_init init_state_fields]
  from th have a: "fst (snd (createOrder (Some order_gbp) init_state)) = None" by blast
  from th have "fst (serve_createOrder (Some order_gbp) init_state)
                  = \<lparr>status = 200, body = BodyEmpty\<rparr>" by blast
  then have b: "status (fst (serve_createOrder (Some order_gbp) init_state)) = 200" by simp
  from th have c: "workflowInstances (snd (serve_createOrder (Some order_gbp) init_state)) = []"
    by blast
  from th have d: "map_of (ordersDB (snd (serve_createOrder (Some order_gbp) init_state)))
       ''order-1'' = Some (new_order order_gbp init_state)" by blast
  show ?thesis using findWorkflow_init_gbp a b c d by blast
qed

text \<open>
  C8. A decision request, whatever it is, adds or removes no key of the store and leaves
  every stored order under its key with the same identifier, customer, original amount,
  original currency and card brand. (The record has three more fields: payment amount,
  payment currency and the accepted flag.)
\<close>

theorem C8_decision_preserves_original_fields:
  assumes "map_of (ordersDB s) k = Some order"
  shows "(let s' = snd (serve_acceptDCC req s)
          in map fst (ordersDB s') = map fst (ordersDB s)
             \<and> (\<exists>order'. map_of (ordersDB s') k = Some order'
                   \<and> OrderID order' = OrderID order
                   \<and> CustomerID order' = CustomerID order
                   \<and> Amount order' = Amount order
                   \<and> Currency order' = Currency order
                   \<and> CardBrand order' = CardBrand order))"
proof (cases req)
  case None
  then show ?thesis
    using assms by (simp add: serve_acceptDCC_def acceptDCCHandler_def)
next
  case (Some resp)
  show ?thesis
  proof (cases "map_of (ordersDB s) (RespOrderID resp)")
    case None
    then show ?thesis
      using assms unfolding Some serve_acceptDCC_def acceptDCCHandler_unknown[OF None] Let_def
      by (simp add: run_burst_ordersDB)
  next
    case (Some stored)
    have dom: "RespOrderID resp \<in> set (map fst (ordersDB s))"
      using Some by (metis map_of_eq_None_iff option.distinct(1) set_map)
    have keys: "map fst (AList.update (RespOrderID resp) (decided resp stored) (ordersDB s))
                  = map fst (ordersDB s)"
      using dom by (simp add: update_keys)
    have fields: "OrderID (decided resp stored) = OrderID stored"
      "CustomerID (decided resp stored) = CustomerID stored"
      "Amount (decided resp stored) = Amount stored"
      "Currency (decided resp stored) = Currency stored"
      "CardBrand (decided resp stored) = CardBrand stored"
      by (simp_all add: decided_def)
    show ?thesis
      using assms Some keys fields
      unfolding \<open>req = Some resp\<close> serve_acceptDCC_def acceptDCCHandler_existing[OF Some] Let_def
      by (cases "k = RespOrderID resp") (simp_all add: run_burst_ordersDB update_conv')
  qed
qed

theorem C8_witness:
  "map_of (ordersDB state_suspended) ''order-1'' = Some order_1
   \<and> map fst (ordersDB (snd (serve_acceptDCC (Some decision_accept) state_suspended)))
        = [''order-1'']
   \<and> (\<exists>order'. map_of (ordersDB (snd (serve_acceptDCC (Some decision_accept) state_suspended)))
                    ''order-1'' = Some order'
          \<and> OrderID order' = ''order-1'' \<and> CustomerID order' = ''cliente456''
          \<and> Amount order' = 100 \<and> Currency order' = ''USD'' \<and> CardBrand order' = ''VISA'')"
proof -
  note th = C8_decision_preserves_original_fields[OF state_suspended_lookup(1),
      of "Some decision_accept", unfolded Let_def]
  have f: "OrderID order_1 = ''order-1''" "CustomerID order_1 = ''cliente456''"
    "Amount order_1 = 100" "Currency order_1 = ''USD''" "CardBrand order_1 = ''VISA''"
    "map fst (ordersDB state_suspended) = [''order-1'']"
    by (simp_all add: order_1_def state_suspended_eval)
  show ?thesis using th state_suspended_lookup(1) unfolding f by blast
qed

text \<open>
  C9. After any sequence of requests served from the initial state, the identifiers of the
  orders created so far are \<open>order-1\<close>, \<open>order-2\<close>, ... in the order of creation, hence
  pairwise distinct, and every created order is still stored under its identifier and
  carries it in \<open>OrderID\<close>.
\<close>

theorem C9_order_ids_never_collide:
  "(let s = serve_all reqs init_state; created = created_orders (logs s)
    in distinct (map OrderID created)
       \<and> map OrderID created = map (\<lambda>k. ''order-'' @ decimal k) [1 ..< Suc (length created)]
       \<and> (\<forall>order \<in> set created.
             \<exists>stored. map_of (ordersDB s) (OrderID order) = Some stored
                       \<and> OrderID stored = OrderID order))"
proof -
  let ?s = "serve_all reqs init_state"
  have inv: "store_inv ?s" by (rule store_inv_serve_all[OF store_inv_init])
  then have keys: "map fst (ordersDB ?s) = map order_id [1 ..< Suc (length (ordersDB ?s))]"
    and cr: "map OrderID (created_orders (logs ?s)) = map fst (ordersDB ?s)"
    and ids: "\<And>k stored. map_of (ordersDB ?s) k = Some stored \<Longrightarrow> OrderID stored = k"
    by (simp_all add: store_inv_def)
  have len: "length (created_orders (logs ?s)) = length (ordersDB ?s)"
    using cr by (metis length_map)
  have 1: "distinct (map OrderID (created_orders (logs ?s)))"
    unfolding cr keys by (rule distinct_order_ids)
  have 2: "map OrderID (created_orders (logs ?s))
             = map (\<lambda>k. ''order-'' @ decimal k) [1 ..< Suc (length (created_orders (logs ?s)))]"
    unfolding len unfolding cr using keys by (simp add: order_id_def[abs_def])
  have 3: "\<exists>stored. map_of (ordersDB ?s) (OrderID order) = Some stored
                       \<and> OrderID stored = OrderID order"
    if "order \<in> set (created_orders (logs ?s))" for order
  proof -
    have "OrderID order \<in> set (map fst (ordersDB ?s))"
      using that cr by (metis image_eqI set_map)
    then obtain stored where "map_of (ordersDB ?s) (OrderID order) = Some stored"
      by (metis map_of_eq_None_iff not_Some_eq set_map)
    then show ?thesis using ids by blast
  qed
  show ?thesis unfolding Let_def using 1 2 3 by blast
qed

theorem C9_witness:
  "map OrderID (created_orders (logs (serve_all requests_demo init_state)))
     = [''order-1'', ''order-2'', ''order-3'']
   \<and> distinct (map OrderID (created_orders (logs (serve_all requests_demo init_state))))"
proof -
  note th = C9_order_ids_never_collide[of requests_demo, unfolded Let_def requests_demo_created]
  have "[1 ..< Suc 3] = [Suc 0, 2, 3]"
    by (simp add: upt_rec)
  with th have a: "map OrderID (created_orders (logs (serve_all requests_demo init_state)))
     = [''order-1'', ''order-2'', ''order-3'']"
    by (simp add: decimal_1 decimal_small)
  from th have b: "distinct (map OrderID (created_orders (logs (serve_all requests_demo init_state))))"
    by blast
  show ?thesis using a b by blast
qed

text \<open>
  C10. \<open>createOrder\<close> stores the decoded order with \<open>OrderID\<close>, \<open>PaymentAmount\<close> and
  \<open>PaymentCurrency\<close> overwritten and nothing else: \<open>DCCAccepted\<close>, \<open>CustomerID\<close>,
  \<open>Amount\<close>, \<open>Currency\<close> and \<open>CardBrand\<close> are stored as decoded.
\<close>

theorem C10_createOrder_keeps_decoded_fields:
  "\<exists>order. map_of (ordersDB (snd (serve_createOrder (Some decoded) s))) (next_OrderID s) = Some order
     \<and> DCCAccepted order = DCCAccepted decoded
     \<and> CustomerID order = CustomerID decoded
     \<and> Amount order = Amount decoded
     \<and> Currency order = Currency decoded
     \<and> CardBrand order = CardBrand decoded
     \<and> OrderID order = next_OrderID s
     \<and> PaymentAmount order = Amount decoded
     \<and> PaymentCurrency order = Currency decoded"
proof -
  have "map_of (ordersDB (snd (serve_createOrder (Some decoded) s))) (next_OrderID s)
          = Some (new_order decoded s)"
    by (simp add: serve_createOrder_ordersDB update_conv')
  then show ?thesis by (simp add: new_order_def)
qed

theorem C10_witness:
  "DCCAccepted order_preset
   \<and> (\<exists>order. map_of (ordersDB (snd (serve_createOrder (Some order_preset) init_state)))
                  ''order-1'' = Some order
         \<and> DCCAccepted order \<and> OrderID order = ''order-1''
         \<and> PaymentAmount order = 100 \<and> PaymentCurrency order = ''USD'')"
proof -
  have f: "DCCAccepted order_preset" "Amount order_preset = 100" "Currency order_preset = ''USD''"
    by (simp_all add: order_preset_def)
  note th = C10_createOrder_keeps_decoded_fields[of order_preset init_state,
      unfolded next_OrderID_init f]
  then show ?thesis using f(1) by auto
qed

end
